theory Spec2Isabelle
  imports Complex_Main
begin

section \<open>JavaScript values\<close>

text \<open>
  The values that reach the options of \<open>Naboo.transition\<close> and the attribute
  \<open>data-naboo\<close>. Numbers are the integers (\<open>Num\<close>) and \<open>NaN\<close>; seconds, which the
  driver obtains by dividing milliseconds by 1000, are exact rationals.
\<close>

datatype jsval =
    Undefined
  | Null
  | Num int
  | NaN
  | Str string
  | Arr "jsval list"
  | Obj "(string \<times> jsval) list"

text \<open>\<open>!v\<close> is \<open>\<not> truthy v\<close>.\<close>

fun truthy :: "jsval \<Rightarrow> bool" where
  "truthy Undefined = False"
| "truthy Null = False"
| "truthy (Num n) = (n \<noteq> 0)"
| "truthy NaN = False"
| "truthy (Str s) = (s \<noteq> [])"
| "truthy (Arr xs) = True"
| "truthy (Obj kvs) = True"

text \<open>\<open>a === b\<close> on primitives; two object literals are never the same object.\<close>

fun strict_eq :: "jsval \<Rightarrow> jsval \<Rightarrow> bool" where
  "strict_eq Undefined Undefined = True"
| "strict_eq Null Null = True"
| "strict_eq (Num a) (Num b) = (a = b)"
| "strict_eq (Str a) (Str b) = (a = b)"
| "strict_eq a b = False"

text \<open>\<open>Object.prototype.toString.call(v)\<close>.\<close>

fun class_tag :: "jsval \<Rightarrow> string" where
  "class_tag Undefined = ''[object Undefined]''"
| "class_tag Null = ''[object Null]''"
| "class_tag (Num n) = ''[object Number]''"
| "class_tag NaN = ''[object Number]''"
| "class_tag (Str s) = ''[object String]''"
| "class_tag (Arr xs) = ''[object Array]''"
| "class_tag (Obj kvs) = ''[object Object]''"

subsection \<open>Digits\<close>

definition is_digit :: "char \<Rightarrow> bool" where
  "is_digit c = ((48::nat) \<le> of_char c \<and> (of_char c :: nat) \<le> 57)"

definition digit_val :: "char \<Rightarrow> int" where
  "digit_val c = int (of_char c) - 48"

definition digit_char :: "nat \<Rightarrow> char" where
  "digit_char d = char_of (48 + d)"

definition is_space :: "char \<Rightarrow> bool" where
  "is_space c = (c = CHR '' '' \<or> (9::nat) \<le> of_char c \<and> (of_char c :: nat) \<le> 13)"

text \<open>The value of a run of decimal digits, most significant first.\<close>

definition digits_val :: "string \<Rightarrow> int" where
  "digits_val ds = foldl (\<lambda>acc c. acc * 10 + digit_val c) 0 ds"

function show_nat :: "nat \<Rightarrow> string" where
  "show_nat n = (if n < 10 then [digit_char n] else show_nat (n div 10) @ [digit_char (n mod 10)])"
  by pat_completeness auto
termination
  by (relation "measure id") auto

declare show_nat.simps [simp del]

definition show_int :: "int \<Rightarrow> string" where
  "show_int i = (if i < 0 then CHR ''-'' # show_nat (nat (- i)) else show_nat (nat i))"

text \<open>
  \<open>String(q)\<close> for a number of seconds \<open>q\<close> that is a whole number of milliseconds:
  the decimal expansion with at most three places and no trailing zero.
\<close>

definition frac_digits :: "nat \<Rightarrow> string" where
  "frac_digits m =
     (if m = 0 then []
      else if m mod 100 = 0 then CHR ''.'' # [digit_char (m div 100)]
      else if m mod 10 = 0 then CHR ''.'' # [digit_char (m div 100), digit_char (m div 10 mod 10)]
      else CHR ''.'' # [digit_char (m div 100), digit_char (m div 10 mod 10), digit_char (m mod 10)])"

definition show_num :: "rat \<Rightarrow> string" where
  "show_num q =
     (let m = \<lfloor>\<bar>q\<bar> * 1000\<rfloor>
      in (if q < 0 \<and> m \<noteq> 0 then ''-'' else []) @ show_nat (nat (m div 1000)) @ frac_digits (nat (m mod 1000)))"

fun to_string :: "jsval \<Rightarrow> string" where
  "to_string Undefined = ''undefined''"
| "to_string Null = ''null''"
| "to_string (Num n) = show_int n"
| "to_string NaN = ''NaN''"
| "to_string (Str s) = s"
| "to_string (Arr xs) = []"
| "to_string (Obj kvs) = ''[object Object]''"

text \<open>
  \<open>parseInt(v, 10)\<close>: leading white space is skipped, a sign is read, then the longest
  run of digits; no digit gives \<open>NaN\<close>, here \<open>None\<close>. A number is first turned into its
  string, whose digits give the number back.
\<close>

definition parse_digits :: "string \<Rightarrow> int option" where
  "parse_digits s =
     (let ds = takeWhile is_digit s in if ds = [] then None else Some (digits_val ds))"

definition parseInt_str :: "string \<Rightarrow> int option" where
  "parseInt_str s =
     (case dropWhile is_space s of
        [] \<Rightarrow> None
      | c # cs \<Rightarrow>
          if c = CHR ''-'' then map_option uminus (parse_digits cs)
          else if c = CHR ''+'' then parse_digits cs
          else parse_digits (c # cs))"

fun parseInt :: "jsval \<Rightarrow> int option" where
  "parseInt (Num n) = Some n"
| "parseInt (Str s) = parseInt_str s"
| "parseInt v = None"

text \<open>\<open>x || d\<close> for a number \<open>x\<close>: \<open>NaN\<close> and \<open>0\<close> are falsy.\<close>

definition or_default :: "int option \<Rightarrow> int \<Rightarrow> int" where
  "or_default x d = (case x of None \<Rightarrow> d | Some n \<Rightarrow> if n = 0 then d else n)"

text \<open>
  Unary plus on what \<open>getAttribute\<close> returns: \<open>null\<close> and the empty string are 0, a
  decimal integer is its value, any other text is \<open>NaN\<close>.
\<close>

definition number_of_string :: "string \<Rightarrow> jsval" where
  "number_of_string s =
     (let t = rev (dropWhile is_space (rev (dropWhile is_space s)))
      in case t of
           [] \<Rightarrow> Num 0
         | c # cs \<Rightarrow>
             let ds = (if c = CHR ''-'' \<or> c = CHR ''+'' then cs else c # cs)
             in if ds \<noteq> [] \<and> list_all is_digit ds
                then Num ((if c = CHR ''-'' then - 1 else 1) * digits_val ds)
                else NaN)"

fun to_number :: "jsval \<Rightarrow> jsval" where
  "to_number Undefined = NaN"
| "to_number Null = Num 0"
| "to_number (Num n) = Num n"
| "to_number NaN = NaN"
| "to_number (Str s) = number_of_string s"
| "to_number (Arr xs) = NaN"
| "to_number (Obj kvs) = NaN"

text \<open>\<open>a + 1\<close> and \<open>a - 1\<close> where \<open>a\<close> is a number.\<close>

fun js_plus :: "jsval \<Rightarrow> int \<Rightarrow> jsval" where
  "js_plus (Num n) k = Num (n + k)"
| "js_plus (Str s) k = Str (s @ show_int k)"
| "js_plus v k = NaN"

fun js_minus :: "jsval \<Rightarrow> int \<Rightarrow> jsval" where
  "js_minus v k = (case to_number v of Num n \<Rightarrow> Num (n - k) | _ \<Rightarrow> NaN)"


section \<open>The data model\<close>

type_synonym ref = nat
type_synonym cell = nat
type_synonym node = nat
type_synonym tid = nat

text \<open>
  Function values, by the closure that created them: a function of the caller, which the
  model only observes being called; the callback that the plugin \<open>p\<close> hands to
  \<open>start\<close> of each child, closed over its counter \<open>n\<close> and over \<open>next\<close> of the
  enclosing sequence; the function that \<open>animate\<close> stores in \<open>opt.cb\<close>; and the
  default \<open>() => {}\<close> of \<open>Naboo.transition\<close>. The last component of the second and
  third is the position of the step that owns the continuation.
\<close>

datatype fn =
    Listener nat
  | PCallback cell ref nat
  | AnimateCb "fn option" ref nat
  | Noop

record opts =
  opt_duration :: jsval
  opt_ease :: jsval
  opt_delay :: jsval
  opt_cb :: "fn option"
  opt_mode :: jsval

text \<open>
  A step is the closure \<open>() => fn.apply(this, args)\<close> that \<open>Naboo.register\<close> pushes:
  the plugin and its arguments. The function given to \<open>done\<close> is the caller's; the
  model records how many times it calls the continuation before it returns (a call made
  later is the call \<open>Advance\<close> below).
\<close>

datatype step =
    P "ref list"
  | Done nat
  | Animate "node option" jsval opts

record naboo =
  steps :: "step list"
  index :: int
  handlers :: "string \<Rightarrow> fn list option"
  canceled :: bool

record dom_node =
  attr_naboo :: "string option"
  style :: "(string \<times> string) list"
  listeners :: "tid list"

record event =
  ev_target :: node
  ev_currentTarget :: node
  ev_elapsedTime :: rat

text \<open>
  The variables one call of \<open>Naboo.transition\<close> leaves captured in \<open>wrappedCallback\<close>
  and in the timer: \<open>dom\<close>, \<open>duration\<close> and \<open>delay\<close> in seconds, \<open>cb\<close>, \<open>fired\<close>, and the
  delay in milliseconds of the timer while it is pending.
\<close>

record tinv =
  t_dom :: node
  t_duration :: rat
  t_delay :: rat
  t_cb :: fn
  fired :: bool
  timer :: "rat option"

text \<open>What an execution lets one observe, in order.\<close>

datatype obs =
    Invoked ref nat
  | Continued ref nat
  | NextCalled ref
  | Fired ref string
  | Called nat
  | Completed tid

record world =
  seqs :: "ref \<Rightarrow> naboo"
  cells :: "cell \<Rightarrow> int"
  next_cell :: nat
  nodes :: "node \<Rightarrow> dom_node"
  invs :: "tid \<Rightarrow> tinv"
  next_tid :: nat
  trace :: "obs list"

text \<open>
  The style table of the platform's test element is not part of the repository: the
  prefix it yields and the two functions that read it are parameters.
\<close>

record platform =
  prefix :: string
  getPropName :: "string \<Rightarrow> string"
  handleUnit :: "string \<Rightarrow> jsval \<Rightarrow> jsval"

text \<open>
  A call in progress or to come. \<open>Advance r i\<close> is a call of the continuation that
  step \<open>i\<close> of \<open>r\<close> was handed, \<open>Next r\<close> any other call of \<open>r.next()\<close>, and
  \<open>Invoke r i st\<close> the body of the plugin of the step that \<open>next\<close> has called.
  \<open>Dispatch e\<close> is the platform dispatching a transition-end event at
  \<open>e.currentTarget\<close>, \<open>Deliver t e\<close> its call of one listener, and \<open>TimerFire t\<close> the
  platform running the timer of invocation \<open>t\<close>.
\<close>

datatype call =
    Start ref "fn option"
  | Next ref
  | Cancel ref
  | On ref string fn
  | Off ref "string option" "fn option"
  | Trigger ref string
  | Apply fn
  | Invoke ref nat step
  | Advance ref nat
  | Transition "node option" jsval opts
  | TimerFire tid
  | Dispatch event
  | Deliver tid event

definition new_naboo :: naboo where
  "new_naboo = \<lparr>steps = [], index = - 1, handlers = Map.empty, canceled = False\<rparr>"

definition upd_seq :: "ref \<Rightarrow> (naboo \<Rightarrow> naboo) \<Rightarrow> world \<Rightarrow> world" where
  "upd_seq r f w = w\<lparr>seqs := (seqs w)(r := f (seqs w r))\<rparr>"

definition upd_node :: "node \<Rightarrow> (dom_node \<Rightarrow> dom_node) \<Rightarrow> world \<Rightarrow> world" where
  "upd_node d f w = w\<lparr>nodes := (nodes w)(d := f (nodes w d))\<rparr>"

definition upd_inv :: "tid \<Rightarrow> (tinv \<Rightarrow> tinv) \<Rightarrow> world \<Rightarrow> world" where
  "upd_inv t f w = w\<lparr>invs := (invs w)(t := f (invs w t))\<rparr>"

definition observe :: "obs \<Rightarrow> world \<Rightarrow> world" where
  "observe e w = w\<lparr>trace := trace w @ [e]\<rparr>"

section \<open>The sequencer\<close>

definition cancel :: "naboo \<Rightarrow> naboo" where
  "cancel s = s\<lparr>canceled := True\<rparr>"

definition on :: "string \<Rightarrow> fn \<Rightarrow> naboo \<Rightarrow> naboo" where
  "on name f s =
     s\<lparr>handlers := (handlers s)(name \<mapsto> (case handlers s name of None \<Rightarrow> [] | Some hs \<Rightarrow> hs) @ [f])\<rparr>"

text \<open>The loop of \<open>off\<close>: the first position that holds \<open>f\<close>, the length when none does.\<close>

fun first_index :: "fn list \<Rightarrow> fn \<Rightarrow> nat" where
  "first_index [] f = 0"
| "first_index (h # hs) f = (if h = f then 0 else Suc (first_index hs f))"

definition splice1 :: "nat \<Rightarrow> 'a list \<Rightarrow> 'a list" where
  "splice1 i xs = take i xs @ drop (Suc i) xs"

text \<open>
  \<open>off(name, fn)\<close>; an argument left out is \<open>None\<close>. \<open>!name\<close> holds for a name left out
  and for the empty string.
\<close>

definition falsy_name :: "string option \<Rightarrow> bool" where
  "falsy_name name = (case name of None \<Rightarrow> True | Some nm \<Rightarrow> nm = [])"

definition off :: "string option \<Rightarrow> fn option \<Rightarrow> naboo \<Rightarrow> naboo" where
  "off name f s =
     (case name of
        None \<Rightarrow> s\<lparr>handlers := Map.empty\<rparr>
      | Some nm \<Rightarrow>
          if falsy_name name then s\<lparr>handlers := Map.empty\<rparr>
          else
            let hs = handlers s nm
            in case f of
                 None \<Rightarrow> s\<lparr>handlers := (handlers s)(nm \<mapsto> [])\<rparr>
               | Some g \<Rightarrow>
                   (case hs of
                      Some l \<Rightarrow> s\<lparr>handlers := (handlers s)(nm \<mapsto> splice1 (first_index l g) l)\<rparr>
                    | None \<Rightarrow> s))"

text \<open>\<open>trigger\<close> calls the listeners of the name in order.\<close>

definition trigger :: "ref \<Rightarrow> string \<Rightarrow> world \<Rightarrow> world \<times> call list" where
  "trigger r name w =
     (observe (Fired r name) w,
      (case handlers (seqs w r) name of None \<Rightarrow> [] | Some hs \<Rightarrow> map Apply hs))"

text \<open>
  \<open>next\<close>: nothing when canceled; else the cursor moves, and either \<open>end\<close> is triggered
  or the step at the cursor is called.
\<close>

definition naboo_next :: "ref \<Rightarrow> world \<Rightarrow> world \<times> call list" where
  "naboo_next r w =
     (if canceled (seqs w r) then (w, [])
      else
        let w1 = upd_seq r (\<lambda>s. s\<lparr>index := index s + 1\<rparr>) w;
            s1 = seqs w1 r
        in if index s1 \<ge> int (length (steps s1)) then trigger r ''end'' w1
           else (observe (Invoked r (nat (index s1))) w1,
                 [Invoke r (nat (index s1)) (steps s1 ! nat (index s1))]))"

definition start :: "ref \<Rightarrow> fn option \<Rightarrow> world \<Rightarrow> world \<times> call list" where
  "start r f w =
     (let w1 = (case f of Some g \<Rightarrow> upd_seq r (on ''end'' g) w | None \<Rightarrow> w);
          (w2, cs) = trigger r ''start'' w1
      in (w2, cs @ [Next r]))"

text \<open>
  The instance method that \<open>Naboo.register\<close> installs pushes the step; the static one
  does so on a new sequence (here: the sequence at a reference not in use).
\<close>

definition enqueue :: "ref \<Rightarrow> step \<Rightarrow> world \<Rightarrow> world" where
  "enqueue r st w = upd_seq r (\<lambda>s. s\<lparr>steps := steps s @ [st]\<rparr>) w"

definition factory :: "ref \<Rightarrow> step \<Rightarrow> world \<Rightarrow> world" where
  "factory r st w = enqueue r st (upd_seq r (\<lambda>s. new_naboo) w)"

subsection \<open>The plugins\<close>

text \<open>
  \<open>p\<close>: \<open>args\<close> is the array that the slice of \<open>arguments\<close> yields, \<open>n\<close> its length;
  each of its sequences is started with the callback \<open>() => (n-- === 0 && next())\<close>.
\<close>

definition plugin_p :: "ref \<Rightarrow> nat \<Rightarrow> ref list \<Rightarrow> world \<Rightarrow> world \<times> call list" where
  "plugin_p r i args w =
     (let c = next_cell w;
          w1 = w\<lparr>cells := (cells w)(c := int (length args)), next_cell := Suc c\<rparr>
      in (w1, map (\<lambda>naboo. Start naboo (Some (PCallback c r i))) args))"

definition p_callback :: "cell \<Rightarrow> ref \<Rightarrow> nat \<Rightarrow> world \<Rightarrow> world \<times> call list" where
  "p_callback c r i w =
     (let n = cells w c;
          w1 = w\<lparr>cells := (cells w)(c := n - 1)\<rparr>
      in (w1, if n = 0 then [Advance r i] else []))"

definition plugin_done :: "ref \<Rightarrow> nat \<Rightarrow> nat \<Rightarrow> world \<Rightarrow> world \<times> call list" where
  "plugin_done r i k w = (w, replicate k (Advance r i))"

definition resolve_mode :: "jsval \<Rightarrow> jsval" where
  "resolve_mode m = (if list_ex (strict_eq m) [Str ''transition''] then m else Str ''transition'')"

definition plugin_animate ::
  "ref \<Rightarrow> nat \<Rightarrow> node option \<Rightarrow> jsval \<Rightarrow> opts \<Rightarrow> world \<Rightarrow> world \<times> call list" where
  "plugin_animate r i dm prop opt w =
     (let cb = opt_cb opt;
          opt1 = opt\<lparr>opt_cb := Some (AnimateCb cb r i)\<rparr>;
          opt2 = opt1\<lparr>opt_mode := resolve_mode (opt_mode opt1)\<rparr>
      in (w, [Transition dm prop opt2]))"

definition animate_cb :: "fn option \<Rightarrow> ref \<Rightarrow> nat \<Rightarrow> call list" where
  "animate_cb cb r i = (case cb of Some g \<Rightarrow> [Apply g] | None \<Rightarrow> []) @ [Advance r i]"


section \<open>The transition driver\<close>

subsection \<open>\<open>Naboo.tool\<close>\<close>

definition is_upper :: "char \<Rightarrow> bool" where
  "is_upper c = ((65::nat) \<le> of_char c \<and> (of_char c :: nat) \<le> 90)"

definition to_lower :: "char \<Rightarrow> char" where
  "to_lower c = (if is_upper c then char_of (of_char c + (32::nat)) else c)"

definition dasherize :: "string \<Rightarrow> string" where
  "dasherize str = concat (map (\<lambda>c. if is_upper c then [CHR ''-'', to_lower c] else [c]) str)"

text \<open>
  \<open>off\<close> is \<open>eventPrefix === undefined && ...\<close>; \<open>eventPrefix\<close> starts as the empty
  string and is only ever assigned a string, so the conjunction is false on every platform.
\<close>

definition tool_off :: bool where
  "tool_off = False"

text \<open>Assignment to a property of an object: the position of a key that exists is kept.\<close>

fun assign :: "string \<Rightarrow> 'v \<Rightarrow> (string \<times> 'v) list \<Rightarrow> (string \<times> 'v) list" where
  "assign k v [] = [(k, v)]"
| "assign k v ((k', v') # kvs) = (if k = k' then (k, v) # kvs else (k', v') # assign k v kvs)"

definition removeProperty :: "string \<Rightarrow> (string \<times> string) list \<Rightarrow> (string \<times> string) list" where
  "removeProperty k st = filter (\<lambda>kv. fst kv \<noteq> k) st"

definition style_get :: "(string \<times> string) list \<Rightarrow> string \<Rightarrow> string" where
  "style_get st k = (case map_of st k of None \<Rightarrow> [] | Some v \<Rightarrow> v)"

text \<open>
  \<open>setCss\<close>: a key whose value is falsy and not 0 is removed from the style at once; the
  other keys are collected in \<open>css\<close> and declared together by the assignment to
  \<open>cssText\<close> after the loop.
\<close>

definition css_removed :: "jsval \<Rightarrow> bool" where
  "css_removed v = (\<not> truthy v \<and> \<not> strict_eq v (Num 0))"

definition setCss :: "(string \<times> jsval) list \<Rightarrow> (string \<times> string) list \<Rightarrow> (string \<times> string) list" where
  "setCss obj st =
     (let st1 = foldl (\<lambda>acc kv. if css_removed (snd kv) then removeProperty (dasherize (fst kv)) acc else acc) st obj;
          css = map (\<lambda>kv. (dasherize (fst kv), to_string (snd kv))) (filter (\<lambda>kv. \<not> css_removed (snd kv)) obj)
      in foldl (\<lambda>acc kv. assign (fst kv) (snd kv) acc) st1 css)"

subsection \<open>\<open>Naboo.transition\<close>\<close>

definition transitionProperty :: "platform \<Rightarrow> string" where
  "transitionProperty pf = prefix pf @ ''transition-property''"

definition transitionDuration :: "platform \<Rightarrow> string" where
  "transitionDuration pf = prefix pf @ ''transition-duration''"

definition transitionDelay :: "platform \<Rightarrow> string" where
  "transitionDelay pf = prefix pf @ ''transition-delay''"

definition transitionTiming :: "platform \<Rightarrow> string" where
  "transitionTiming pf = prefix pf @ ''transition-timing-function''"

definition cssReset :: "platform \<Rightarrow> (string \<times> jsval) list" where
  "cssReset pf =
     [(transitionProperty pf, Str []), (transitionDuration pf, Str []),
      (transitionDelay pf, Str []), (transitionTiming pf, Str [])]"

definition easeArr :: "jsval list" where
  "easeArr = [Str ''ease'', Str ''linear'', Str ''ease-in'', Str ''ease-out'', Str ''ease-in-out'']"

definition resolve_ease :: "jsval \<Rightarrow> jsval" where
  "resolve_ease e = (if list_ex (strict_eq e) easeArr then e else Str ''ease'')"

definition getAttribute :: "node \<Rightarrow> world \<Rightarrow> jsval" where
  "getAttribute d w = (case attr_naboo (nodes w d) of None \<Rightarrow> Null | Some s \<Rightarrow> Str s)"

definition setAttribute :: "node \<Rightarrow> jsval \<Rightarrow> world \<Rightarrow> world" where
  "setAttribute d v w = upd_node d (\<lambda>n. n\<lparr>attr_naboo := Some (to_string v)\<rparr>) w"

definition addEventListener :: "node \<Rightarrow> tid \<Rightarrow> world \<Rightarrow> world" where
  "addEventListener d t w =
     upd_node d (\<lambda>n. if t \<in> set (listeners n) then n else n\<lparr>listeners := listeners n @ [t]\<rparr>) w"

definition removeEventListener :: "node \<Rightarrow> tid \<Rightarrow> world \<Rightarrow> world" where
  "removeEventListener d t w = upd_node d (\<lambda>n. n\<lparr>listeners := removeAll t (listeners n)\<rparr>) w"

fun join :: "string \<Rightarrow> string list \<Rightarrow> string" where
  "join sep [] = []"
| "join sep [x] = x"
| "join sep (x # y # ys) = x @ sep @ join sep (y # ys)"

text \<open>The loop over the own keys of \<open>property\<close>.\<close>

fun css_loop ::
  "platform \<Rightarrow> (string \<times> jsval) list \<Rightarrow> (string \<times> jsval) list \<times> string list
     \<Rightarrow> (string \<times> jsval) list \<times> string list" where
  "css_loop pf [] acc = acc"
| "css_loop pf ((originKey, v) # rest) (cssValues, cssProperty) =
     (let key = getPropName pf originKey;
          val = handleUnit pf key v
      in css_loop pf rest (assign key val cssValues, cssProperty @ [dasherize key]))"

text \<open>An existing declaration is continued with a comma.\<close>

definition continued :: "string \<Rightarrow> string" where
  "continued s = (if s \<noteq> [] \<or> parseInt_str s = Some 0 then s @ '', '' else s)"

text \<open>
  What \<open>Naboo.transition\<close> does once \<open>duration\<close> (milliseconds), \<open>ease\<close>, \<open>delay\<close>
  (milliseconds) and \<open>cb\<close> are read from the options: from the counter on the target to
  the last \<open>setCss\<close>.
\<close>

definition transition_body ::
  "platform \<Rightarrow> node \<Rightarrow> (string \<times> jsval) list \<Rightarrow> int \<Rightarrow> jsval \<Rightarrow> int \<Rightarrow> fn \<Rightarrow> world \<Rightarrow> world" where
  "transition_body pf d property duration0 ease delay0 cb w =
     (let nabooNum0 = getAttribute d w;
          nabooNum = (if \<not> strict_eq nabooNum0 (to_number nabooNum0) then Num 0 else nabooNum0);
          w1 = setAttribute d (js_plus nabooNum 1) w;
          duration1 = (if tool_off then 0 else duration0);
          duration2 = max duration1 0;
          duration = (of_int duration2 :: rat) / 1000;
          delay = (of_int delay0 :: rat) / 1000;
          loop = css_loop pf property ([], []);
          st = style (nodes w1 d);
          cssValues =
            (if duration > 0 then
               assign (transitionDelay pf)
                 (Str (continued (style_get st (transitionDelay pf)) @ show_num delay @ ''s''))
               (assign (transitionTiming pf)
                 (Str ((let v = style_get st (transitionTiming pf) in if v \<noteq> [] then v @ '', '' else v)
                       @ to_string ease))
               (assign (transitionDuration pf)
                 (Str (continued (style_get st (transitionDuration pf)) @ show_num duration @ ''s''))
               (assign (transitionProperty pf)
                 (Str ((let v = style_get st (transitionProperty pf) in if v \<noteq> [] then v @ '', '' else v)
                       @ join '', '' (snd loop)))
                 (fst loop))))
             else fst loop);
          t = next_tid w1;
          w2 = w1\<lparr>invs := (invs w1)(t := \<lparr>t_dom = d, t_duration = duration, t_delay = delay,
                                            t_cb = cb, fired = False,
                                            timer = Some ((duration + delay) * 1000 + 25)\<rparr>),
                  next_tid := Suc t\<rparr>;
          w3 = (if duration > 0 then addEventListener d t w2 else w2)
      in upd_node d (\<lambda>n. n\<lparr>style := setCss cssValues (style n)\<rparr>) w3)"

text \<open>
  \<open>Naboo.transition(dom, property, opt)\<close>: nothing without a target or when \<open>property\<close>
  is not an object; else the options are read, with their defaults, and the body runs.
\<close>

definition default_cb :: "opts \<Rightarrow> fn" where
  "default_cb opt = (case opt_cb opt of Some g \<Rightarrow> g | None \<Rightarrow> Noop)"

definition own_keys :: "jsval \<Rightarrow> (string \<times> jsval) list" where
  "own_keys v = (case v of Obj kvs \<Rightarrow> kvs | _ \<Rightarrow> [])"

definition transition :: "platform \<Rightarrow> node option \<Rightarrow> jsval \<Rightarrow> opts \<Rightarrow> world \<Rightarrow> world" where
  "transition pf dm property opt w =
     (case dm of
        None \<Rightarrow> w
      | Some d \<Rightarrow>
          if class_tag property \<noteq> ''[object Object]'' then w
          else
            let duration = or_default (parseInt (opt_duration opt)) 400;
                ease = resolve_ease (opt_ease opt);
                delay = or_default (parseInt (opt_delay opt)) 0;
                cb = default_cb opt
            in transition_body pf d (own_keys property) duration ease delay cb w)"

text \<open>
  The body of \<open>wrappedCallback\<close> after its guards: \<open>fired\<close> is set, the counter is
  lowered, the four transition declarations are reset when it reads 0, and \<open>cb\<close> is called.
\<close>

definition completion :: "platform \<Rightarrow> tid \<Rightarrow> world \<Rightarrow> world \<times> call list" where
  "completion pf t w =
     (let d = t_dom (invs w t);
          w1 = upd_inv t (\<lambda>c. c\<lparr>fired := True\<rparr>) w;
          w2 = setAttribute d (js_minus (getAttribute d w1) 1) w1;
          w3 = (if strict_eq (to_number (getAttribute d w2)) (Num 0)
                then upd_node d (\<lambda>n. n\<lparr>style := setCss (cssReset pf) (style n)\<rparr>) w2
                else w2)
      in (observe (Completed t) w3, [Apply (t_cb (invs w t))]))"

definition wrappedCallback :: "platform \<Rightarrow> tid \<Rightarrow> event option \<Rightarrow> world \<Rightarrow> world \<times> call list" where
  "wrappedCallback pf t ev w =
     (case ev of
        Some e \<Rightarrow>
          if ev_elapsedTime e \<noteq> t_duration (invs w t) + t_delay (invs w t) then (w, [])
          else if ev_target e \<noteq> ev_currentTarget e then (w, [])
          else completion pf t (removeEventListener (ev_target e) t w)
      | None \<Rightarrow> completion pf t (removeEventListener (t_dom (invs w t)) t w))"

text \<open>The timer runs \<open>!fired && wrappedCallback()\<close>, once.\<close>

definition timer_fire :: "platform \<Rightarrow> tid \<Rightarrow> world \<Rightarrow> world \<times> call list" where
  "timer_fire pf t w =
     (if t < next_tid w \<and> timer (invs w t) \<noteq> None then
        let w1 = upd_inv t (\<lambda>c. c\<lparr>timer := None\<rparr>) w
        in if \<not> fired (invs w1 t) then wrappedCallback pf t None w1 else (w1, [])
      else (w, []))"

text \<open>
  The platform calls the listeners that the current target has when the dispatch begins,
  each one if it is still registered when its turn comes.
\<close>

definition dispatch :: "event \<Rightarrow> world \<Rightarrow> world \<times> call list" where
  "dispatch e w = (w, map (\<lambda>t. Deliver t e) (listeners (nodes w (ev_currentTarget e))))"

definition deliver :: "platform \<Rightarrow> tid \<Rightarrow> event \<Rightarrow> world \<Rightarrow> world \<times> call list" where
  "deliver pf t e w =
     (if t \<in> set (listeners (nodes w (ev_currentTarget e))) then wrappedCallback pf t (Some e) w
      else (w, []))"

section \<open>Execution\<close>

text \<open>
  What one call does before the calls it makes in turn: the new state and those calls,
  in order.
\<close>

fun apply_fn :: "fn \<Rightarrow> world \<Rightarrow> world \<times> call list" where
  "apply_fn (Listener k) w = (observe (Called k) w, [])"
| "apply_fn (PCallback c r i) w = p_callback c r i w"
| "apply_fn (AnimateCb cb r i) w = (w, animate_cb cb r i)"
| "apply_fn Noop w = (w, [])"

fun invoke :: "ref \<Rightarrow> nat \<Rightarrow> step \<Rightarrow> world \<Rightarrow> world \<times> call list" where
  "invoke r i (P args) w = plugin_p r i args w"
| "invoke r i (Done k) w = plugin_done r i k w"
| "invoke r i (Animate dm prop opt) w = plugin_animate r i dm prop opt w"

fun do_call :: "platform \<Rightarrow> call \<Rightarrow> world \<Rightarrow> world \<times> call list" where
  "do_call pf (Start r f) w = start r f w"
| "do_call pf (Next r) w = naboo_next r (observe (NextCalled r) w)"
| "do_call pf (Cancel r) w = (upd_seq r cancel w, [])"
| "do_call pf (On r name f) w = (upd_seq r (on name f) w, [])"
| "do_call pf (Off r name f) w = (upd_seq r (off name f) w, [])"
| "do_call pf (Trigger r name) w = trigger r name w"
| "do_call pf (Apply f) w = apply_fn f w"
| "do_call pf (Invoke r i st) w = invoke r i st w"
| "do_call pf (Advance r i) w = naboo_next r (observe (Continued r i) w)"
| "do_call pf (Transition dm prop opt) w = (transition pf dm prop opt w, [])"
| "do_call pf (TimerFire t) w = timer_fire pf t w"
| "do_call pf (Dispatch e) w = dispatch e w"
| "do_call pf (Deliver t e) w = deliver pf t e w"

text \<open>
  The calls pending are run first to last, each followed by the calls it makes; the
  result is \<open>None\<close> when this never ends.
\<close>

partial_function (option) exec :: "platform \<Rightarrow> call list \<Rightarrow> world \<Rightarrow> world option" where
  "exec pf k w =
     (case k of
        [] \<Rightarrow> Some w
      | c # k' \<Rightarrow> (case do_call pf c w of (w', cs) \<Rightarrow> exec pf (cs @ k') w'))"

declare exec.simps [code]

text \<open>Calls from outside, one after the other, each run to its end.\<close>

fun run :: "platform \<Rightarrow> call list \<Rightarrow> world \<Rightarrow> world option" where
  "run pf [] w = Some w"
| "run pf (c # cs) w = (case exec pf [c] w of None \<Rightarrow> None | Some w' \<Rightarrow> run pf cs w')"

text \<open>The state before anything has happened.\<close>

definition world0 :: world where
  "world0 =
     \<lparr>seqs = (\<lambda>r. new_naboo), cells = (\<lambda>c. 0), next_cell = 0,
      nodes = (\<lambda>d. \<lparr>attr_naboo = None, style = [], listeners = []\<rparr>),
      invs = (\<lambda>t. \<lparr>t_dom = 0, t_duration = 0, t_delay = 0, t_cb = Noop, fired = False, timer = None\<rparr>),
      next_tid = 0, trace = []\<rparr>"

definition platform0 :: platform where
  "platform0 = \<lparr>prefix = [], getPropName = (\<lambda>p. p), handleUnit = (\<lambda>p v. v)\<rparr>"

definition opt0 :: opts where
  "opt0 = \<lparr>opt_duration = Undefined, opt_ease = Undefined, opt_delay = Undefined,
            opt_cb = None, opt_mode = Undefined\<rparr>"

section \<open>What the claims speak of\<close>

text \<open>How many times the completion handler of invocation \<open>t\<close> has run.\<close>

definition completions :: "tid \<Rightarrow> world \<Rightarrow> nat" where
  "completions t w = count_list (trace w) (Completed t)"

text \<open>
  The state of an invocation that exists: its handler has run once if \<open>fired\<close> is set and
  not at all otherwise; once its timer has run, \<open>fired\<close> is set; and its listener is
  registered on its own target only, and only while \<open>fired\<close> is not set.
\<close>

definition good :: "tid \<Rightarrow> world \<Rightarrow> bool" where
  "good t w =
     (t < next_tid w \<and>
      completions t w = (if fired (invs w t) then 1 else 0) \<and>
      (timer (invs w t) = None \<longrightarrow> fired (invs w t)) \<and>
      (\<forall>d. t \<in> set (listeners (nodes w d)) \<longrightarrow> d = t_dom (invs w t) \<and> \<not> fired (invs w t)))"



text \<open>
  A function of the caller that calls nothing back (or the default \<open>() => {}\<close>), and what
  a call of it lets one observe.
\<close>

fun simple_fn :: "fn \<Rightarrow> bool" where
  "simple_fn (Listener k) = True"
| "simple_fn Noop = True"
| "simple_fn f = False"

fun calls_of :: "fn \<Rightarrow> obs list" where
  "calls_of (Listener k) = [Called k]"
| "calls_of f = []"

definition is_invoked :: "ref \<Rightarrow> obs \<Rightarrow> bool" where
  "is_invoked r e = (case e of Invoked r' i \<Rightarrow> r' = r | _ \<Rightarrow> False)"


text \<open>An invocation whose timer is pending and whose handler has not run.\<close>

definition in_flight :: "tid \<Rightarrow> world \<Rightarrow> bool" where
  "in_flight t w = (t < next_tid w \<and> timer (invs w t) \<noteq> None \<and> \<not> fired (invs w t))"

text \<open>
  Sequence 0, an \<open>animate\<close> step with a callback and one more step, once started: the
  transition of its first step is in flight.
\<close>

definition wB :: world where
  "wB = (case run platform0 [Start 0 None]
                (enqueue 0 (Done 1)
                  (enqueue 0 (Animate (Some 0) (Obj [(''width'', Str ''10px'')]) (opt0\<lparr>opt_cb := Some (Listener 1)\<rparr>))
                     world0)) of
           Some w \<Rightarrow> w | None \<Rightarrow> world0)"

text \<open>Sequence \<open>r\<close> is canceled, its cursor is \<open>i\<close> and the steps it has called are \<open>l\<close>.\<close>

definition halted :: "ref \<Rightarrow> int \<Rightarrow> obs list \<Rightarrow> world \<Rightarrow> bool" where
  "halted r i l w = (canceled (seqs w r) \<and> index (seqs w r) = i \<and> filter (is_invoked r) (trace w) = l)"

text \<open>The callback of the caller that \<open>animate\<close> wraps, when there is one.\<close>

fun user_calls :: "fn option \<Rightarrow> obs list" where
  "user_calls None = []"
| "user_calls (Some f) = calls_of f"

fun simple_opt :: "fn option \<Rightarrow> bool" where
  "simple_opt None = True"
| "simple_opt (Some f) = simple_fn f"






definition listener_calls :: "naboo \<Rightarrow> string \<Rightarrow> obs list" where
  "listener_calls s name = concat (map calls_of (case handlers s name of None \<Rightarrow> [] | Some hs \<Rightarrow> hs))"


text \<open>The state with the cursor of \<open>r\<close> at \<open>j\<close> and \<open>tr\<close> observed since.\<close>

definition moved :: "ref \<Rightarrow> int \<Rightarrow> obs list \<Rightarrow> world \<Rightarrow> world" where
  "moved r j tr w = w\<lparr>seqs := (seqs w)(r := (seqs w r)\<lparr>index := j\<rparr>), trace := trace w @ tr\<rparr>"





subsection \<open>The order of the steps\<close>

text \<open>An observation that tells of the steps of sequence \<open>r\<close>: a step called, a continuation called, \<open>next\<close> called.\<close>

definition concerns :: "ref \<Rightarrow> obs \<Rightarrow> bool" where
  "concerns r e =
     (case e of Invoked r' i \<Rightarrow> r' = r | Continued r' i \<Rightarrow> r' = r | NextCalled r' \<Rightarrow> r' = r | _ \<Rightarrow> False)"

text \<open>Observations that tell nothing of the steps of \<open>r\<close>.\<close>

definition neutral :: "ref \<Rightarrow> obs list \<Rightarrow> bool" where
  "neutral r es = list_all (\<lambda>e. \<not> concerns r e) es"



text \<open>\<open>Q e older\<close> holds of every observation \<open>e\<close> and the ones made before it, latest first.\<close>

fun each_before :: "(obs \<Rightarrow> obs list \<Rightarrow> bool) \<Rightarrow> obs list \<Rightarrow> bool" where
  "each_before Q [] = True"
| "each_before Q (e # older) = (Q e older \<and> each_before Q older)"

definition throughout :: "(obs \<Rightarrow> obs list \<Rightarrow> bool) \<Rightarrow> obs list \<Rightarrow> bool" where
  "throughout Q tr = each_before Q (rev tr)"

text \<open>The positions of the steps of \<open>r\<close> that were called, and of the continuations that were called, in the order of the calls.\<close>

definition invoked_of :: "ref \<Rightarrow> obs list \<Rightarrow> nat list" where
  "invoked_of r tr =
     List.map_filter (\<lambda>e. case e of Invoked r' i \<Rightarrow> if r' = r then Some i else None | _ \<Rightarrow> None) tr"

definition continued_of :: "ref \<Rightarrow> obs list \<Rightarrow> nat list" where
  "continued_of r tr =
     List.map_filter (\<lambda>e. case e of Continued r' i \<Rightarrow> if r' = r then Some i else None | _ \<Rightarrow> None) tr"






section \<open>Running the model\<close>

lemma exec_Nil [simp]: "exec pf [] w = Some w"
  by (subst exec.simps) simp

lemma exec_Cons [simp]:
  "exec pf (c # k) w = (case do_call pf c w of (w', cs) \<Rightarrow> exec pf (cs @ k) w')"
  by (subst exec.simps) simp

text \<open>A property that every call keeps holds when the execution ends.\<close>

lemma exec_invariant:
  assumes step: "\<And>c w w' cs. I w \<Longrightarrow> do_call pf c w = (w', cs) \<Longrightarrow> I w'"
    and run: "exec pf k w = Some w'" and init: "I w"
  shows "I w'"
proof -
  let ?P = "\<lambda>q (k :: call list) w w'. q = pf \<longrightarrow> I w \<longrightarrow> I w'"
  have "?P pf k w w'"
  proof (rule exec.raw_induct[where P = ?P, OF _ run])
    fix exec' q k w w'
    assume ih: "\<And>q k w w'. exec' q k w = Some w' \<Longrightarrow> ?P q k w w'"
      and eq: "(case k of [] \<Rightarrow> Some w
                | c # k' \<Rightarrow> (case do_call q c w of (w', cs) \<Rightarrow> exec' q (cs @ k') w')) = Some w'"
    show "?P q k w w'"
    proof (cases k)
      case Nil
      with eq show ?thesis by simp
    next
      case (Cons c k')
      obtain w1 cs where dc: "do_call q c w = (w1, cs)" by (cases "do_call q c w")
      from eq Cons dc have "exec' q (cs @ k') w1 = Some w'" by simp
      then have "?P q (cs @ k') w1 w'" by (rule ih)
      with dc step show ?thesis by blast
    qed
  qed
  with init show ?thesis by blast
qed

lemma run_invariant:
  assumes step: "\<And>c w w' cs. I w \<Longrightarrow> do_call pf c w = (w', cs) \<Longrightarrow> I w'"
    and run: "run pf evs w = Some w'" and init: "I w"
  shows "I w'"
  using run init
proof (induction evs arbitrary: w)
  case Nil
  then show ?case by simp
next
  case (Cons c evs)
  then obtain w1 where e: "exec pf [c] w = Some w1" and r: "run pf evs w1 = Some w'"
    by (auto split: option.splits)
  have "I w1" by (rule exec_invariant[of I pf, OF step e Cons.prems(2)])
  with Cons.IH r show ?case by blast
qed

section \<open>Options of the driver\<close>

text \<open>
  C3. The claim: \<open>duration\<close> is the default 400 only when \<open>parseInt\<close> fails, and an
  explicit duration of 0 yields 0. The code computes \<open>parseInt(opt.duration, 10) || 400\<close>,
  and 0 is falsy: with \<open>duration: 0\<close> the invocation runs for 0.4 seconds, its timer is
  set to 425 milliseconds and the style declares \<open>0.4s\<close>.
\<close>

theorem duration_zero_runs_400:
  "(let w = transition platform0 (Some 0) (Obj [(''width'', Str ''10px'')])
              (opt0\<lparr>opt_duration := Num 0\<rparr>) world0
    in t_duration (invs w 0) = 2 / 5 \<and> timer (invs w 0) = Some 425 \<and>
       style_get (style (nodes w 0)) ''transition-duration'' = ''0.4s'')"
  by code_simp




lemma resolve_mode_in [simp]: "resolve_mode (Str ''transition'') = Str ''transition''"
  by (simp add: resolve_mode_def)






text \<open>
  C10. With no target, or with a \<open>property\<close> that is not an object, a call of
  \<open>Naboo.transition\<close> leaves the state as it is (styles, attributes, listeners, timers)
  and calls nothing.
\<close>

theorem transition_guard_noop:
  assumes "dm = None \<or> (\<forall>kvs. property \<noteq> Obj kvs)"
  shows "transition pf dm property opt w = w \<and> exec pf [Transition dm property opt] w = Some w"
proof -
  have "transition pf dm property opt w = w"
    using assms by (cases property) (auto simp: transition_def split: option.splits)
  then show ?thesis by simp
qed

theorem transition_guard_noop_witness:
  "transition platform0 (Some 0) (Arr []) (opt0\<lparr>opt_cb := Some (Listener 1)\<rparr>) world0 = world0 \<and>
   exec platform0 [Transition None (Obj [(''width'', Str ''10px'')]) (opt0\<lparr>opt_cb := Some (Listener 1)\<rparr>)] world0
     = Some world0"
  using transition_guard_noop
          [where dm = "Some 0" and property = "Arr []" and pf = platform0
             and opt = "opt0\<lparr>opt_cb := Some (Listener 1)\<rparr>" and w = world0]
        transition_guard_noop
          [where dm = None and property = "Obj [(''width'', Str ''10px'')]" and pf = platform0
             and opt = "opt0\<lparr>opt_cb := Some (Listener 1)\<rparr>" and w = world0]
  by (simp del: exec_Cons)

section \<open>Listeners\<close>









section \<open>The parallel plugin\<close>

text \<open>
  The callback compares \<open>n\<close> with 0 before it lowers it: as long as no more callbacks
  have run than \<open>n\<close> counted at first, none of them calls \<open>next\<close>.
\<close>

lemma p_callbacks_silent:
  "int j \<le> cells w c \<Longrightarrow>
   exec pf (replicate j (Apply (PCallback c r i)) @ k) w =
   exec pf k (w\<lparr>cells := (cells w)(c := cells w c - int j)\<rparr>)"
proof (induction j arbitrary: w)
  case 0
  then show ?case by simp
next
  case (Suc j)
  let ?w1 = "w\<lparr>cells := (cells w)(c := cells w c - 1)\<rparr>"
  from Suc.prems have "cells w c \<noteq> 0" by simp
  then have "exec pf (replicate (Suc j) (Apply (PCallback c r i)) @ k) w =
             exec pf (replicate j (Apply (PCallback c r i)) @ k) ?w1"
    by (simp add: p_callback_def Let_def)
  also have "\<dots> = exec pf k (?w1\<lparr>cells := (cells ?w1)(c := cells ?w1 c - int j)\<rparr>)"
    using Suc.prems by (intro Suc.IH) simp
  also have "?w1\<lparr>cells := (cells ?w1)(c := cells ?w1 c - int j)\<rparr> =
             w\<lparr>cells := (cells w)(c := cells w c - int (Suc j))\<rparr>"
    by (simp add: algebra_simps)
  finally show ?case .
qed


section \<open>The counter on the target\<close>

text \<open>
  C2. The claim: the transition declarations are cleared only after both of two
  overlapping invocations have completed. \<open>getAttribute\<close> returns a string, which is
  never \<open>===\<close> to a number, so the counter is set to 1 by each invocation. Two invocations
  on target 0, of 100 and 500 milliseconds; the timer of the first fires. The counter
  reads 0 and the four declarations are gone, while the second invocation has not
  completed.
\<close>

theorem first_completion_clears_style:
  "(case run platform0
           [Transition (Some 0) (Obj [(''width'', Str ''100px'')])
              (opt0\<lparr>opt_duration := Num 100, opt_cb := Some (Listener 1)\<rparr>),
            Transition (Some 0) (Obj [(''height'', Str ''50px'')])
              (opt0\<lparr>opt_duration := Num 500, opt_cb := Some (Listener 2)\<rparr>)] world0 of
      None \<Rightarrow> False
    | Some w \<Rightarrow>
        attr_naboo (nodes w 0) = Some ''1'' \<and>
        style (nodes w 0) =
          [(''width'', ''100px''), (''transition-property'', ''width, height''),
           (''transition-duration'', ''0.1s, 0.5s''), (''transition-timing-function'', ''ease, ease''),
           (''transition-delay'', ''0s, 0s''), (''height'', ''50px'')] \<and>
        (case run platform0 [TimerFire 0] w of
           None \<Rightarrow> False
         | Some w' \<Rightarrow>
             trace w' = [Completed 0, Called 1] \<and>
             attr_naboo (nodes w' 0) = Some ''0'' \<and>
             style (nodes w' 0) = [(''width'', ''100px''), (''height'', ''50px'')] \<and>
             \<not> fired (invs w' 1) \<and> timer (invs w' 1) = Some 525))"
  by code_simp

section \<open>The completion handler\<close>

lemmas updaters = upd_seq_def upd_node_def upd_inv_def observe_def setAttribute_def
  addEventListener_def removeEventListener_def getAttribute_def

lemma transition_body_good:
  "good t w \<Longrightarrow> good t (transition_body pf d kvs du ea de cb w)"
  by (auto simp: good_def completions_def transition_body_def Let_def updaters)

lemma transition_good: "good t w \<Longrightarrow> good t (transition pf dm p opt w)"
  by (auto simp: transition_def Let_def transition_body_good split: option.splits)

lemma completion_fields:
  assumes "completion pf t w = (w', cs)"
  shows "trace w' = trace w @ [Completed t]"
    and "invs w' = (invs w)(t := (invs w t)\<lparr>fired := True\<rparr>)"
    and "next_tid w' = next_tid w"
    and "listeners (nodes w' d) = listeners (nodes w d)"
    and "seqs w' = seqs w"
    and "cs = [Apply (t_cb (invs w t))]"
  using assms by (auto simp: completion_def Let_def updaters)

lemma completion_good_self:
  assumes "good t w" "\<not> fired (invs w t)" "\<forall>d. t \<notin> set (listeners (nodes w d))" "completion pf t w = (w', cs)"
  shows "good t w'"
  using assms(1-3) completion_fields[OF assms(4)] by (auto simp: good_def completions_def)

lemma completion_good_other:
  assumes "good t w" "t' \<noteq> t" "completion pf t' w = (w', cs)"
  shows "good t w'"
  using assms(1-2) completion_fields[OF assms(3)] by (auto simp: good_def completions_def)

lemma remove_good_other: "good t w \<Longrightarrow> t' \<noteq> t \<Longrightarrow> good t (removeEventListener d t' w)"
  by (auto simp: good_def completions_def updaters)

lemma remove_good_self: "good t w \<Longrightarrow> good t (removeEventListener (t_dom (invs w t)) t w)"
  by (auto simp: good_def completions_def updaters)

lemma remove_self_none:
  "good t w \<Longrightarrow> t \<notin> set (listeners (nodes (removeEventListener (t_dom (invs w t)) t w) d))"
  by (auto simp: good_def updaters)

lemma remove_invs [simp]:
  "invs (removeEventListener d t' w) = invs w"
  "next_tid (removeEventListener d t' w) = next_tid w"
  "trace (removeEventListener d t' w) = trace w"
  "seqs (removeEventListener d t' w) = seqs w"
  by (simp_all add: updaters)

lemma wrappedCallback_good:
  assumes g: "good t w" and wc: "wrappedCallback pf t' ev w = (w', cs)"
    and ok: "t' = t \<longrightarrow> \<not> fired (invs w t) \<and> (case ev of None \<Rightarrow> True | Some e \<Rightarrow> ev_target e = ev_currentTarget e \<longrightarrow> ev_target e = t_dom (invs w t))"
  shows "good t w'"
proof (cases "t' = t")
  case False
  with g wc show ?thesis
    by (auto simp: wrappedCallback_def split: option.splits if_splits
             intro: completion_good_other remove_good_other)
next
  case True
  show ?thesis
  proof (cases "cs = [] \<and> w' = w")
    case True
    with g show ?thesis by simp
  next
    case False
    with wc True ok have c: "completion pf t (removeEventListener (t_dom (invs w t)) t w) = (w', cs)"
      by (auto simp: wrappedCallback_def split: option.splits if_splits)
    show ?thesis
      by (rule completion_good_self[OF remove_good_self[OF g] _ _ c])
         (use ok True g in \<open>auto simp: remove_self_none\<close>)
  qed
qed

lemma timer_cleared_good:
  "good t w \<Longrightarrow> t' \<noteq> t \<or> fired (invs w t) \<Longrightarrow> good t (upd_inv t' (\<lambda>c. c\<lparr>timer := None\<rparr>) w)"
  by (auto simp: good_def completions_def updaters)

lemma wrappedCallback_None_fields:
  assumes "wrappedCallback pf t None w = (w', cs)"
  shows "trace w' = trace w @ [Completed t]"
    and "invs w' = (invs w)(t := (invs w t)\<lparr>fired := True\<rparr>)"
    and "next_tid w' = next_tid w"
    and "listeners (nodes w' d) =
           (if d = t_dom (invs w t) then removeAll t (listeners (nodes w d)) else listeners (nodes w d))"
    and "seqs w' = seqs w"
    and "cs = [Apply (t_cb (invs w t))]"
  using assms by (auto simp: wrappedCallback_def completion_def Let_def updaters)

lemma good_step:
  assumes "do_call pf c w = (w', cs)" "good t w"
  shows "good t w'"
proof (cases c)
  case (Start r' f)
  with assms show ?thesis by (auto simp: good_def completions_def start_def trigger_def updaters Let_def split: option.splits prod.splits)
next
  case (Next r')
  with assms show ?thesis by (auto simp: good_def completions_def naboo_next_def trigger_def updaters Let_def split: if_splits)
next
  case (Cancel r')
  with assms show ?thesis by (auto simp: good_def completions_def updaters)
next
  case (On x41 x42 x43)
  with assms show ?thesis by (auto simp: good_def completions_def updaters)
next
  case (Off x51 x52 x53)
  with assms show ?thesis by (auto simp: good_def completions_def updaters)
next
  case (Trigger x61 x62)
  with assms show ?thesis by (auto simp: good_def completions_def trigger_def updaters)
next
  case (Apply f)
  with assms show ?thesis by (cases f) (auto simp: good_def completions_def updaters p_callback_def Let_def)
next
  case (Invoke r' i st)
  with assms show ?thesis by (cases st) (auto simp: good_def completions_def plugin_p_def plugin_done_def plugin_animate_def Let_def)
next
  case (Advance r' i)
  with assms show ?thesis by (auto simp: good_def completions_def naboo_next_def trigger_def updaters Let_def split: if_splits)
next
  case (Transition x101 x102 x103)
  with assms show ?thesis by (auto simp: transition_good)
next
  case (TimerFire t')
  show ?thesis
  proof (cases "t' < next_tid w \<and> timer (invs w t') \<noteq> None")
    case False
    with assms TimerFire show ?thesis by (auto simp: timer_fire_def)
  next
    case True
    let ?w1 = "upd_inv t' (\<lambda>c. c\<lparr>timer := None\<rparr>) w"
    show ?thesis
    proof (cases "fired (invs w t')")
      case f: True
      with True assms TimerFire have "w' = ?w1" by (auto simp: timer_fire_def Let_def updaters)
      with assms f show ?thesis by (auto simp: good_def completions_def updaters)
    next
      case nf: False
      with True assms TimerFire have wc: "wrappedCallback pf t' None ?w1 = (w', cs)"
        by (auto simp: timer_fire_def Let_def updaters)
      show ?thesis
      proof (cases "t' = t")
        case False
        have "good t ?w1" using assms(2) False by (intro timer_cleared_good) auto
        then show ?thesis using wc by (rule wrappedCallback_good) (use False in simp)
      next
        case same: True
        note f = wrappedCallback_None_fields[OF wc[unfolded same]]
        show ?thesis
          using assms(2) nf same f(1,2,3) by (auto simp: good_def completions_def updaters f(4))
      qed
    qed
  qed
next
  case (Dispatch x12)
  with assms show ?thesis by (auto simp: dispatch_def)
next
  case (Deliver t' e)
  show ?thesis
  proof (cases "t' \<in> set (listeners (nodes w (ev_currentTarget e)))")
    case False
    with assms Deliver show ?thesis by (auto simp: deliver_def)
  next
    case True
    with assms Deliver have wc: "wrappedCallback pf t' (Some e) w = (w', cs)" by (auto simp: deliver_def)
    show ?thesis
      by (rule wrappedCallback_good[OF assms(2) wc]) (use True assms(2) in \<open>auto simp: good_def\<close>)
  qed
qed



lemma transition_body_fields:
  "next_tid (transition_body pf d kvs du ea de cb w) = Suc (next_tid w)"
  "invs (transition_body pf d kvs du ea de cb w) =
     (invs w)(next_tid w := \<lparr>t_dom = d, t_duration = of_int (max du 0) / 1000, t_delay = of_int de / 1000,
                              t_cb = cb, fired = False,
                              timer = Some ((of_int (max du 0) / 1000 + of_int de / 1000) * 1000 + 25)\<rparr>)"
  "trace (transition_body pf d kvs du ea de cb w) = trace w"
  "listeners (nodes (transition_body pf d kvs du ea de cb w) d') =
     (if d' = d \<and> 0 < du \<and> next_tid w \<notin> set (listeners (nodes w d))
      then listeners (nodes w d) @ [next_tid w] else listeners (nodes w d'))"
  by (simp_all add: transition_body_def Let_def updaters tool_off_def)





lemma good_exec:
  assumes "exec pf k w = Some w'" "good t w"
  shows "good t w'"
proof (rule exec_invariant[where I = "good t" and pf = pf and k = k and w = w])
  show "\<And>c w w' cs. good t w \<Longrightarrow> do_call pf c w = (w', cs) \<Longrightarrow> good t w'"
    by (rule good_step)
qed fact+










lemma count_calls_of [simp]: "count_list (calls_of f) (Completed t) = 0"
  by (cases f) simp_all







section \<open>Cancellation\<close>

lemma transition_frame:
  "seqs (transition pf dm p opt w) = seqs w"
  "trace (transition pf dm p opt w) = trace w"
  by (cases dm; cases "class_tag p = ''[object Object]''";
      simp add: transition_def Let_def transition_body_fields transition_body_def updaters)+

lemma wrappedCallback_frame:
  "wrappedCallback pf t ev w = (w', cs) \<Longrightarrow>
   seqs w' = seqs w \<and> (trace w' = trace w \<or> trace w' = trace w @ [Completed t])"
  by (auto simp: wrappedCallback_def completion_def Let_def updaters split: option.splits if_splits)

lemma canceled_step:
  assumes "do_call pf c w = (w', cs)" "canceled (seqs w r)"
  shows "canceled (seqs w' r) \<and> index (seqs w' r) = index (seqs w r) \<and>
         filter (is_invoked r) (trace w') = filter (is_invoked r) (trace w)"
proof (cases c)
  case (Start r' f)
  with assms show ?thesis by (auto simp: start_def trigger_def updaters on_def is_invoked_def Let_def split: option.splits prod.splits)
next
  case (Next r')
  with assms show ?thesis by (auto simp: naboo_next_def trigger_def updaters is_invoked_def Let_def split: if_splits)
next
  case (Cancel r')
  with assms show ?thesis by (auto simp: updaters cancel_def)
next
  case (On x41 x42 x43)
  with assms show ?thesis by (auto simp: updaters on_def)
next
  case (Off x51 x52 x53)
  with assms show ?thesis by (auto simp: updaters off_def Let_def split: option.splits)
next
  case (Trigger x61 x62)
  with assms show ?thesis by (auto simp: trigger_def updaters is_invoked_def)
next
  case (Apply f)
  with assms show ?thesis by (cases f) (auto simp: updaters is_invoked_def p_callback_def Let_def)
next
  case (Invoke r' i st)
  with assms show ?thesis by (cases st) (auto simp: plugin_p_def plugin_done_def plugin_animate_def Let_def)
next
  case (Advance r' i)
  with assms show ?thesis by (auto simp: naboo_next_def trigger_def updaters is_invoked_def Let_def split: if_splits)
next
  case (Transition x101 x102 x103)
  with assms show ?thesis by (auto simp: transition_frame)
next
  case (TimerFire t)
  with assms show ?thesis by (auto simp: timer_fire_def Let_def updaters is_invoked_def split: if_splits dest!: wrappedCallback_frame)
next
  case (Dispatch x12)
  with assms show ?thesis by (auto simp: dispatch_def)
next
  case (Deliver t e)
  with assms show ?thesis by (auto simp: deliver_def is_invoked_def split: if_splits dest!: wrappedCallback_frame)
qed

lemma halted_step: "halted r i l w \<Longrightarrow> do_call pf c w = (w', cs) \<Longrightarrow> halted r i l w'"
  unfolding halted_def using canceled_step by metis

lemma halted_run:
  assumes "run pf evs w = Some w'" "halted r i l w"
  shows "halted r i l w'"
proof (rule run_invariant[where I = "halted r i l" and pf = pf and evs = evs and w = w])
  show "\<And>c w w' cs. halted r i l w \<Longrightarrow> do_call pf c w = (w', cs) \<Longrightarrow> halted r i l w'"
    by (rule halted_step)
qed fact+

lemma next_canceled:
  "canceled (seqs w r) \<Longrightarrow> do_call pf (Next r) w = (observe (NextCalled r) w, [])"
  "canceled (seqs w r) \<Longrightarrow> do_call pf (Advance r i) w = (observe (Continued r i) w, [])"
  by (simp_all add: naboo_next_def updaters)

lemma animate_completion_canceled:
  assumes c: "canceled (seqs w r)" and f: "in_flight t w"
    and cb: "t_cb (invs w t) = AnimateCb ucb r i" and s: "simple_opt ucb"
  shows "\<exists>w'. exec pf [TimerFire t] w = Some w' \<and>
              trace w' = trace w @ Completed t # user_calls ucb @ [Continued r i] \<and>
              fired (invs w' t) \<and> index (seqs w' r) = index (seqs w r)"
proof -
  let ?w1 = "upd_inv t (\<lambda>c. c\<lparr>timer := None\<rparr>) w"
  obtain wa cs where wc: "wrappedCallback pf t None ?w1 = (wa, cs)"
    by (cases "wrappedCallback pf t None ?w1")
  note fl = wrappedCallback_None_fields[OF wc]
  have cs: "cs = [Apply (AnimateCb ucb r i)]" using fl(6) cb by (simp add: updaters)
  have dc: "do_call pf (TimerFire t) w = (wa, cs)"
    using f wc by (simp add: timer_fire_def Let_def updaters in_flight_def)
  have ca: "canceled (seqs wa r)" using c fl(5) by (simp add: updaters)
  have "exec pf [TimerFire t] w = exec pf (animate_cb ucb r i) wa"
    using dc by (simp add: cs)
  also have "\<dots> = Some (observe (Continued r i) (wa\<lparr>trace := trace wa @ user_calls ucb\<rparr>))"
  proof (cases ucb)
    case None
    then show ?thesis using ca by (simp add: animate_cb_def naboo_next_def updaters)
  next
    case (Some g)
    then have "simple_fn g" using s by simp
    then show ?thesis using ca Some
      by (cases g) (simp_all add: animate_cb_def naboo_next_def updaters)
  qed
  finally show ?thesis using fl(1,2,5) by (simp add: updaters)
qed

text \<open>
  C5. \<open>cancel()\<close> sets the flag of the sequence and nothing else. From then on a call of
  \<open>next()\<close>, or of a continuation, does nothing (the model records only that it was
  made); whatever calls follow, the cursor stays where it was and no further step of the
  sequence is called. A transition that an \<open>animate\<close> step of the sequence has in flight
  still completes when its timer runs: the handler runs, then the callback of the caller,
  then the continuation, which leaves the cursor where it was.
\<close>

theorem cancel_stops_only_advance:
  assumes "exec pf [Cancel r] w0 = Some w"
  shows "w = w0\<lparr>seqs := (seqs w0)(r := (seqs w0 r)\<lparr>canceled := True\<rparr>)\<rparr> \<and>
         do_call pf (Next r) w = (observe (NextCalled r) w, []) \<and>
         do_call pf (Advance r i) w = (observe (Continued r i) w, []) \<and>
         (\<forall>evs w'. run pf evs w = Some w' \<longrightarrow>
            canceled (seqs w' r) \<and> index (seqs w' r) = index (seqs w0 r) \<and>
            filter (is_invoked r) (trace w') = filter (is_invoked r) (trace w0)) \<and>
         (\<forall>t ucb. in_flight t w0 \<and> t_cb (invs w0 t) = AnimateCb ucb r i \<and> simple_opt ucb \<longrightarrow>
            (\<exists>w'. exec pf [TimerFire t] w = Some w' \<and>
                   trace w' = trace w0 @ Completed t # user_calls ucb @ [Continued r i] \<and>
                   fired (invs w' t) \<and> index (seqs w' r) = index (seqs w0 r)))"
proof -
  from assms have w: "w = w0\<lparr>seqs := (seqs w0)(r := (seqs w0 r)\<lparr>canceled := True\<rparr>)\<rparr>"
    by (simp add: updaters cancel_def)
  have c: "canceled (seqs w r)" by (simp add: w)
  have h: "halted r (index (seqs w0 r)) (filter (is_invoked r) (trace w0)) w"
    by (simp add: halted_def w)
  have 1: "\<forall>evs w'. run pf evs w = Some w' \<longrightarrow>
            canceled (seqs w' r) \<and> index (seqs w' r) = index (seqs w0 r) \<and>
            filter (is_invoked r) (trace w') = filter (is_invoked r) (trace w0)"
    using halted_run[OF _ h] by (auto simp: halted_def)
  have 2: "\<forall>t ucb. in_flight t w0 \<and> t_cb (invs w0 t) = AnimateCb ucb r i \<and> simple_opt ucb \<longrightarrow>
            (\<exists>w'. exec pf [TimerFire t] w = Some w' \<and>
                   trace w' = trace w0 @ Completed t # user_calls ucb @ [Continued r i] \<and>
                   fired (invs w' t) \<and> index (seqs w' r) = index (seqs w0 r))"
  proof (intro allI impI)
    fix t ucb
    assume a: "in_flight t w0 \<and> t_cb (invs w0 t) = AnimateCb ucb r i \<and> simple_opt ucb"
    then have "in_flight t w" "t_cb (invs w t) = AnimateCb ucb r i" by (simp_all add: w in_flight_def)
    from animate_completion_canceled[OF c this] a
    show "\<exists>w'. exec pf [TimerFire t] w = Some w' \<and>
                   trace w' = trace w0 @ Completed t # user_calls ucb @ [Continued r i] \<and>
                   fired (invs w' t) \<and> index (seqs w' r) = index (seqs w0 r)"
      by (simp add: w)
  qed
  show ?thesis using w next_canceled[OF c] 1 2 by blast
qed

theorem cancel_stops_only_advance_witness:
  "\<exists>w w'. exec platform0 [Cancel 0] wB = Some w \<and> exec platform0 [TimerFire 0] w = Some w' \<and>
          trace w' = [Fired 0 ''start'', NextCalled 0, Invoked 0 0, Completed 0, Called 1, Continued 0 0] \<and>
          index (seqs w' 0) = 0"
proof -
  obtain w where w: "exec platform0 [Cancel 0] wB = Some w" by (simp add: updaters)
  have f: "in_flight 0 wB" by code_simp
  have cb: "t_cb (invs wB 0) = AnimateCb (Some (Listener 1)) 0 0" by code_simp
  have tr: "trace wB = [Fired 0 ''start'', NextCalled 0, Invoked 0 0]" by code_simp
  have ix: "index (seqs wB 0) = 0" by code_simp
  from cancel_stops_only_advance[OF w, of 0]
  have "\<forall>t ucb. in_flight t wB \<and> t_cb (invs wB t) = AnimateCb ucb 0 0 \<and> simple_opt ucb \<longrightarrow>
            (\<exists>w'. exec platform0 [TimerFire t] w = Some w' \<and>
                   trace w' = trace wB @ Completed t # user_calls ucb @ [Continued 0 0] \<and>
                   fired (invs w' t) \<and> index (seqs w' 0) = index (seqs wB 0))"
    by blast
  from this[rule_format, of 0 "Some (Listener 1)"] f cb tr ix w show ?thesis
    by (auto simp del: exec_Cons)
qed


section \<open>From start to end\<close>




lemma moved_fields [simp]:
  "steps (seqs (moved r j tr w) r) = steps (seqs w r)"
  "handlers (seqs (moved r j tr w) r) = handlers (seqs w r)"
  "canceled (seqs (moved r j tr w) r) = canceled (seqs w r)"
  "index (seqs (moved r j tr w) r) = j"
  "trace (moved r j tr w) = trace w @ tr"
  by (simp_all add: moved_def)

lemma observe_fields [simp]:
  "seqs (observe e w) = seqs w"
  "trace (observe e w) = trace w @ [e]"
  by (simp_all add: observe_def)














lemma count_listener_calls [simp]: "count_list (listener_calls s nm) (Fired r nm') = 0"
  unfolding listener_calls_def
proof (induction "case handlers s nm of None \<Rightarrow> [] | Some hs \<Rightarrow> hs" arbitrary: s)
  case Nil
  then show ?case by (metis concat.simps(1) count_list.simps(1) list.simps(8))
next
  case (Cons h hs)
  have "\<And>l. count_list (concat (map calls_of l)) (Fired r nm') = 0"
  proof -
    fix l show "count_list (concat (map calls_of l)) (Fired r nm') = 0"
    proof (induction l)
      case Nil then show ?case by simp
    next
      case (Cons a l)
      then show ?case by (cases a) simp_all
    qed
  qed
  then show ?case by simp
qed

lemma count_pairs [simp]:
  "count_list (concat (map (\<lambda>j. [Invoked r j, Continued r j]) js)) (Fired r nm) = 0"
  by (induction js) simp_all




section \<open>The order of the steps\<close>






lemma throughout_Nil [simp]: "throughout Q []"
  by (simp add: throughout_def)



lemma invoked_of_simps [simp]:
  "invoked_of r [] = []"
  "invoked_of r (tr @ es) = invoked_of r tr @ invoked_of r es"
  "invoked_of r (e # es) = (case e of Invoked r' i \<Rightarrow> if r' = r then [i] else [] | _ \<Rightarrow> []) @ invoked_of r es"
  by (auto simp: invoked_of_def map_filter_def split: obs.splits)

lemma continued_of_simps [simp]:
  "continued_of r [] = []"
  "continued_of r (tr @ es) = continued_of r tr @ continued_of r es"
  "continued_of r (e # es) = (case e of Continued r' i \<Rightarrow> if r' = r then [i] else [] | _ \<Rightarrow> []) @ continued_of r es"
  by (auto simp: continued_of_def map_filter_def split: obs.splits)

lemma neutral_invoked [simp]: "neutral r es \<Longrightarrow> invoked_of r es = []"
  by (induction es) (auto simp: neutral_def concerns_def split: obs.splits)

lemma neutral_continued [simp]: "neutral r es \<Longrightarrow> continued_of r es = []"
  by (induction es) (auto simp: neutral_def concerns_def split: obs.splits)

lemma neutral_count [simp]: "neutral r es \<Longrightarrow> count_list es (NextCalled r) = 0"
  by (induction es) (auto simp: neutral_def concerns_def split: obs.splits)















end
